theory Spec2Isabelle
  imports Main "HOL-Library.Sublist"
begin

section \<open>C strings\<close>

text \<open>
  A value of type \<^typ>\<open>string\<close> stands for the bytes of a C string before its
  terminating NUL; \<^typ>\<open>char\<close> is a byte. The library functions the three stages call
  are written out on that representation.
\<close>

definition NL :: char where
  "NL = CHR 0x0A"

definition SP :: char where
  "SP = CHR 0x20"

definition DQ :: char where
  "DQ = CHR 0x22"

definition strlen :: "string \<Rightarrow> nat" where
  "strlen s = length s"

text \<open>\<open>strncmp s1 s2 n == 0\<close>: the first \<open>n\<close> bytes agree, the comparison ending early
  where both strings end.\<close>

fun strncmp_eq :: "string \<Rightarrow> string \<Rightarrow> nat \<Rightarrow> bool" where
  "strncmp_eq s1 s2 0 = True"
| "strncmp_eq [] [] (Suc n) = True"
| "strncmp_eq [] (b # bs) (Suc n) = False"
| "strncmp_eq (a # as) [] (Suc n) = False"
| "strncmp_eq (a # as) (b # bs) (Suc n) = (a = b \<and> strncmp_eq as bs n)"

text \<open>\<open>strstr haystack needle\<close>: the suffix of the haystack that starts at the first
  occurrence of the needle, \<open>None\<close> for the NULL pointer.\<close>

fun strstr :: "string \<Rightarrow> string \<Rightarrow> string option" where
  "strstr [] needle = (if needle = [] then Some [] else None)"
| "strstr (c # cs) needle =
     (if prefix needle (c # cs) then Some (c # cs) else strstr cs needle)"

text \<open>\<open>strncpy dest src n\<close> into a zero-filled buffer of more than \<open>n\<close> bytes: the
  string left in the buffer is the first \<open>n\<close> bytes of the source.\<close>

definition strncpy :: "string \<Rightarrow> nat \<Rightarrow> string" where
  "strncpy src n = take n src"

fun strcspn :: "string \<Rightarrow> string \<Rightarrow> nat" where
  "strcspn [] reject = 0"
| "strcspn (c # cs) reject = (if c \<in> set reject then 0 else Suc (strcspn cs reject))"

definition strdup :: "string \<Rightarrow> string" where
  "strdup s = s"

section \<open>Lexer (lexer.c)\<close>

datatype TokenType = TOKEN_PRINT | TOKEN_SEPARATOR | TOKEN_STRING | TOKEN_UNKNOWN

record Token =
  tok_type :: TokenType
  tok_value :: string

text \<open>The print keyword, twelve bytes of UTF-8, and the separator glyph, three bytes.\<close>

definition keyword :: string where
  "keyword = [CHR 0xE0, CHR 0xA8, CHR 0xB2, CHR 0xE0, CHR 0xA8, CHR 0xBF,
              CHR 0xE0, CHR 0xA8, CHR 0x96, CHR 0xE0, CHR 0xA9, CHR 0x8B]"

definition separator :: string where
  "separator = [CHR 0xE2, CHR 0x98, CHR 0xAC]"

text \<open>\<open>while (*str == ' ') str++;\<close>\<close>

fun skip_spaces :: "string \<Rightarrow> string" where
  "skip_spaces [] = []"
| "skip_spaces (c # cs) = (if c = SP then skip_spaces cs else c # cs)"

text \<open>\<open>sizeof(stringToken.value) - 1\<close>\<close>

definition value_max :: nat where
  "value_max = 512 - 1"

definition tokenize :: "string \<Rightarrow> Token list" where
  "tokenize line =
     (if strncmp_eq line keyword (strlen keyword) then
        (let tokens = [\<lparr>tok_type = TOKEN_PRINT, tok_value = keyword\<rparr>] in
         case strstr line separator of
           Some sep \<Rightarrow>
             (let tokens = tokens @ [\<lparr>tok_type = TOKEN_SEPARATOR, tok_value = separator\<rparr>];
                  str = skip_spaces (drop (strlen separator) sep);
                  v = strncpy str value_max;
                  v = take (strcspn v [NL]) v
              in tokens @ [\<lparr>tok_type = TOKEN_STRING, tok_value = v\<rparr>])
         | None \<Rightarrow> tokens)
      else [\<lparr>tok_type = TOKEN_UNKNOWN, tok_value = ''???''\<rparr>])"

section \<open>Parser (parser.c)\<close>

datatype StatementType = STMT_PRINT

record Statement =
  stmt_type :: StatementType
  stmt_value :: string

text \<open>The array \<open>statements\<close> with its \<open>count\<close> filled slots is the list of those slots.\<close>

type_synonym Program = "Statement list"

definition count :: "Program \<Rightarrow> nat" where
  "count prog = length prog"

text \<open>\<open>fprintf(stderr, "Syntax error at token %d: '%s'\n", i, tokens[i].value); exit(1);\<close>
  is the error value carrying the position and the text.\<close>

datatype parse_error = SyntaxError nat string

definition matches_at :: "Token list \<Rightarrow> nat \<Rightarrow> bool" where
  "matches_at tokens i \<longleftrightarrow>
     i + 2 < length tokens \<and>
     tok_type (tokens ! i) = TOKEN_PRINT \<and>
     tok_type (tokens ! (i + 1)) = TOKEN_SEPARATOR \<and>
     tok_type (tokens ! (i + 2)) = TOKEN_STRING"

text \<open>The \<open>for\<close> loop; at its exit it hands back the cursor \<open>i\<close> with the program.\<close>

function parse_loop :: "Token list \<Rightarrow> nat \<Rightarrow> Program \<Rightarrow> parse_error + nat \<times> Program" where
  "parse_loop tokens i prog =
     (if i < length tokens then
        (if matches_at tokens i then
           (let stmt = \<lparr>stmt_type = STMT_PRINT,
                        stmt_value = strdup (tok_value (tokens ! (i + 2)))\<rparr>
            in parse_loop tokens (i + 3) (prog @ [stmt]))
         else Inl (SyntaxError i (tok_value (tokens ! i))))
      else Inr (i, prog))"
  by pat_completeness auto
termination
  by (relation "measure (\<lambda>(tokens, i, prog). length tokens - i)") auto

definition parse_tokens :: "Token list \<Rightarrow> parse_error + Program" where
  "parse_tokens tokens =
     (case parse_loop tokens 0 [] of
        Inl e \<Rightarrow> Inl e
      | Inr (i, prog) \<Rightarrow> Inr prog)"

section \<open>Code generator (codegen.c)\<close>

text \<open>\<open>%d\<close> of a non-negative \<open>int\<close>.\<close>

definition digit_char :: "nat \<Rightarrow> char" where
  "digit_char d = ''0123456789'' ! (d mod 10)"

fun show_nat :: "nat \<Rightarrow> string" where
  "show_nat n = (if n < 10 then [digit_char n] else show_nat (n div 10) @ [digit_char n])"

text \<open>The file is the text written so far; \<open>fprintf\<close> appends to it.\<close>

definition fprintf :: "string \<Rightarrow> string \<Rightarrow> string" where
  "fprintf f s = f @ s"

datatype gen_error = IOError

function data_loop :: "Program \<Rightarrow> nat \<Rightarrow> string \<Rightarrow> string" where
  "data_loop program i f =
     (if i < count program then
        (case stmt_type (program ! i) of
           STMT_PRINT \<Rightarrow>
             (let f = fprintf f (''msg'' @ show_nat i @ '' db '' @ [DQ] @
                                 stmt_value (program ! i) @ [DQ] @ '', 0xA'' @ [NL]);
                  f = fprintf f (''len'' @ show_nat i @ '' equ $ - msg'' @ show_nat i @ [NL])
              in data_loop program (i + 1) f))
      else f)"
  by pat_completeness auto
termination
  by (relation "measure (\<lambda>(program, i, f). count program - i)") auto

function text_loop :: "Program \<Rightarrow> nat \<Rightarrow> string \<Rightarrow> string" where
  "text_loop program i f =
     (if i < count program then
        (case stmt_type (program ! i) of
           STMT_PRINT \<Rightarrow>
             (let f = fprintf f (''    mov rax, 1'' @ [NL]);
                  f = fprintf f (''    mov rdi, 1'' @ [NL]);
                  f = fprintf f (''    mov rsi, msg'' @ show_nat i @ [NL]);
                  f = fprintf f (''    mov rdx, len'' @ show_nat i @ [NL]);
                  f = fprintf f (''    syscall'' @ [NL, NL])
              in text_loop program (i + 1) f))
      else f)"
  by pat_completeness auto
termination
  by (relation "measure (\<lambda>(program, i, f). count program - i)") auto

text \<open>\<open>fopen_ok\<close> says whether \<open>fopen(filename, "w")\<close> gave a file; the result is
  the content of that file at \<open>fclose\<close>.\<close>

definition generate_code :: "bool \<Rightarrow> Program \<Rightarrow> gen_error + string" where
  "generate_code fopen_ok program =
     (if \<not> fopen_ok then Inl IOError
      else
        (let f = [];
             f = fprintf f (''section .data'' @ [NL]);
             f = data_loop program 0 f;
             f = fprintf f ([NL] @ ''section .text'' @ [NL]);
             f = fprintf f (''global _start'' @ [NL]);
             f = fprintf f (''_start:'' @ [NL]);
             f = text_loop program 0 f;
             f = fprintf f (''    mov rax, 60'' @ [NL]);
             f = fprintf f (''    xor rdi, rdi'' @ [NL]);
             f = fprintf f (''    syscall'' @ [NL])
         in Inr f))"

section \<open>Vocabulary of the specification\<close>

text \<open>An input line holds a line terminator at its end or nowhere.\<close>

definition is_line :: "string \<Rightarrow> bool" where
  "is_line line \<longleftrightarrow> NL \<notin> set (butlast line)"

text \<open>The Print statement that the grammar builds from the \<open>k\<close>-th run of three tokens.\<close>

definition stmt_of :: "Token list \<Rightarrow> nat \<Rightarrow> Statement" where
  "stmt_of tokens k = \<lparr>stmt_type = STMT_PRINT, stmt_value = tok_value (tokens ! (3 * k + 2))\<rparr>"

text \<open>The emitted artifact as the specification words it: two data lines per statement,
  a block of five lines (and a blank one) per statement, the exit block of three lines.\<close>

definition spec_data_lines :: "nat \<Rightarrow> string \<Rightarrow> string" where
  "spec_data_lines i lit =
     ''msg'' @ show_nat i @ '' db '' @ [DQ] @ lit @ [DQ] @ '', 0xA'' @ [NL] @
     ''len'' @ show_nat i @ '' equ $ - msg'' @ show_nat i @ [NL]"

definition spec_write_block :: "nat \<Rightarrow> string" where
  "spec_write_block i =
     ''    mov rax, 1'' @ [NL] @
     ''    mov rdi, 1'' @ [NL] @
     ''    mov rsi, msg'' @ show_nat i @ [NL] @
     ''    mov rdx, len'' @ show_nat i @ [NL] @
     ''    syscall'' @ [NL] @ [NL]"

definition spec_exit_block :: string where
  "spec_exit_block =
     ''    mov rax, 60'' @ [NL] @
     ''    xor rdi, rdi'' @ [NL] @
     ''    syscall'' @ [NL]"

section \<open>The C library functions on lists\<close>

declare parse_loop.simps [simp del] data_loop.simps [simp del] text_loop.simps [simp del]
  show_nat.simps [simp del]

lemma strncmp_eq_prefix: "strncmp_eq s1 s2 (length s2) \<longleftrightarrow> prefix s2 s1"
proof (induction s2 arbitrary: s1)
  case Nil
  then show ?case by simp
next
  case (Cons b bs)
  then show ?case by (cases s1) auto
qed

lemma strstr_None: "strstr h n = None \<longleftrightarrow> \<not> sublist n h"
  by (induction h) (auto simp: sublist_Cons_right)

lemma strstr_Some: "strstr h n = Some s \<Longrightarrow> suffix s h \<and> prefix n s"
  by (induction h) (auto simp: suffix_Cons split: if_splits)

lemma strstr_first:
  assumes "\<not> sublist n (pre @ butlast n)" "n \<noteq> []"
  shows "strstr (pre @ n @ rest) n = Some (n @ rest)"
  using assms
proof (induction pre)
  case Nil
  then show ?case by (cases n) simp_all
next
  case (Cons c pre)
  have "\<not> prefix n (c # pre @ n @ rest)"
  proof
    assume p: "prefix n (c # pre @ n @ rest)"
    have q: "prefix (c # pre @ butlast n) (c # pre @ n @ rest)"
      by (metis Cons_prefix_Cons append_butlast_last_id Cons.prems(2) prefixI
          same_prefix_prefix append.assoc)
    have "length n \<le> length (c # pre @ butlast n)" by simp
    with p q have "prefix n (c # pre @ butlast n)"
      by (metis prefix_length_prefix)
    then have "sublist n ((c # pre) @ butlast n)" by simp
    with Cons.prems show False by simp
  qed
  moreover have "\<not> sublist n (pre @ butlast n)"
    using Cons.prems(1) by (auto simp: sublist_Cons_right)
  ultimately show ?case using Cons.IH Cons.prems(2) by simp
qed

lemma skip_spaces_dropWhile: "skip_spaces s = dropWhile (\<lambda>c. c = SP) s"
  by (induction s) simp_all

lemma strcspn_takeWhile: "take (strcspn v [NL]) v = takeWhile (\<lambda>c. c \<noteq> NL) v"
  by (induction v) simp_all

section \<open>The lexer\<close>

lemma tokenize_eq:
  "tokenize line =
     (if prefix keyword line then
        (case strstr line separator of
           Some sep \<Rightarrow>
             [\<lparr>tok_type = TOKEN_PRINT, tok_value = keyword\<rparr>,
              \<lparr>tok_type = TOKEN_SEPARATOR, tok_value = separator\<rparr>,
              \<lparr>tok_type = TOKEN_STRING,
               tok_value = takeWhile (\<lambda>c. c \<noteq> NL)
                             (take 511 (dropWhile (\<lambda>c. c = SP) (drop 3 sep)))\<rparr>]
         | None \<Rightarrow> [\<lparr>tok_type = TOKEN_PRINT, tok_value = keyword\<rparr>])
      else [\<lparr>tok_type = TOKEN_UNKNOWN, tok_value = ''???''\<rparr>])"
proof -
  have "length separator = 3" by (simp add: separator_def)
  then show ?thesis
    by (simp add: tokenize_def strlen_def strncmp_eq_prefix skip_spaces_dropWhile
        strncpy_def value_max_def strcspn_takeWhile Let_def split: option.split)
qed

text \<open>
  C6. A line that does not start with the print keyword, whatever it holds, gives exactly
  one token, of kind Unknown, carrying the fixed placeholder \<open>???\<close>.
\<close>

theorem tokenize_unknown:
  "\<not> prefix keyword line \<Longrightarrow>
   tokenize line = [\<lparr>tok_type = TOKEN_UNKNOWN, tok_value = ''???''\<rparr>]"
  by (simp add: tokenize_eq)

theorem tokenize_unknown_witness:
  "\<not> prefix keyword (''foo bar'' @ [NL]) \<and>
   tokenize (''foo bar'' @ [NL]) = [\<lparr>tok_type = TOKEN_UNKNOWN, tok_value = ''???''\<rparr>]"
proof -
  have h: "\<not> prefix keyword (''foo bar'' @ [NL])" by (simp add: keyword_def)
  show ?thesis using h tokenize_unknown [OF h] by simp
qed

lemma strstr_keyword: "strstr (keyword @ xs) separator = strstr xs separator"
  by (simp add: keyword_def separator_def)

lemma strstr_spaces: "strstr (replicate m SP @ xs) separator = strstr xs separator"
  by (induction m) (simp_all add: separator_def SP_def)

lemma strstr_separator: "strstr (separator @ xs) separator = Some (separator @ xs)"
  by (simp add: separator_def)

lemma dropWhile_append_keep:
  "dropWhile P ys = ys \<Longrightarrow> dropWhile P (xs @ ys) = dropWhile P xs @ ys"
  by (induction xs) simp_all

lemma takeWhile_take_terminated:
  assumes "NL \<notin> set d" "tm = [] \<or> tm = [NL]"
  shows "takeWhile (\<lambda>c. c \<noteq> NL) (take n (d @ tm)) = take n d"
proof -
  have a: "\<forall>x\<in>set (take n d). x \<noteq> NL"
    using assms(1) by (auto dest: in_set_takeD)
  have b: "takeWhile (\<lambda>c. c \<noteq> NL) (take (n - length d) tm) = []"
    using assms(2) by (cases "n - length d") auto
  show ?thesis using a b by simp
qed

lemma tokenize_print_line:
  assumes "line = keyword @ replicate m SP @ separator @ rest @ tm"
    and "tm = [] \<or> tm = [NL]" and "NL \<notin> set rest"
  shows "tokenize line =
           [\<lparr>tok_type = TOKEN_PRINT, tok_value = keyword\<rparr>,
            \<lparr>tok_type = TOKEN_SEPARATOR, tok_value = separator\<rparr>,
            \<lparr>tok_type = TOKEN_STRING, tok_value = take 511 (dropWhile (\<lambda>c. c = SP) rest)\<rparr>]"
proof -
  have p: "prefix keyword line" using assms(1) by simp
  have s: "strstr line separator = Some (separator @ rest @ tm)"
    using assms(1) by (simp add: strstr_keyword strstr_spaces strstr_separator)
  have l: "length separator = 3" by (simp add: separator_def)
  have "dropWhile (\<lambda>c. c = SP) tm = tm"
    using assms(2) by (auto simp: NL_def SP_def)
  then have d: "dropWhile (\<lambda>c. c = SP) (rest @ tm) = dropWhile (\<lambda>c. c = SP) rest @ tm"
    by (rule dropWhile_append_keep)
  have n: "NL \<notin> set (dropWhile (\<lambda>c. c = SP) rest)"
    using assms(3) by (auto dest: set_dropWhileD)
  show ?thesis
    using p s l d takeWhile_take_terminated [OF n assms(2)] by (simp add: tokenize_eq)
qed

lemma tokenize_length: "length (tokenize line) = 1 \<or> length (tokenize line) = 3"
  by (simp add: tokenize_eq split: option.split)

text \<open>
  C5. \<open>tokenize\<close> returns an ordered sequence of at most three tokens: the three tokens
  Keyword-Print, Separator, StringLiteral when the line begins with the keyword and
  contains the separator; the one Unknown token when the line does not begin with the
  keyword; the Keyword-Print token alone when the keyword is there and the separator is not.
\<close>

theorem tokenize_shape:
  "length (tokenize line) \<le> 3 \<and>
   (prefix keyword line \<and> sublist separator line \<longrightarrow>
      (\<exists>v. tokenize line =
         [\<lparr>tok_type = TOKEN_PRINT, tok_value = keyword\<rparr>,
          \<lparr>tok_type = TOKEN_SEPARATOR, tok_value = separator\<rparr>,
          \<lparr>tok_type = TOKEN_STRING, tok_value = v\<rparr>])) \<and>
   (\<not> prefix keyword line \<longrightarrow>
      tokenize line = [\<lparr>tok_type = TOKEN_UNKNOWN, tok_value = ''???''\<rparr>]) \<and>
   (prefix keyword line \<and> \<not> sublist separator line \<longrightarrow>
      tokenize line = [\<lparr>tok_type = TOKEN_PRINT, tok_value = keyword\<rparr>])"
proof (intro conjI impI)
  show "length (tokenize line) \<le> 3"
    using tokenize_length [of line] by auto
next
  assume h: "prefix keyword line \<and> sublist separator line"
  then obtain s where "strstr line separator = Some s"
    using strstr_None [of line separator] by auto
  with h show "\<exists>v. tokenize line =
         [\<lparr>tok_type = TOKEN_PRINT, tok_value = keyword\<rparr>,
          \<lparr>tok_type = TOKEN_SEPARATOR, tok_value = separator\<rparr>,
          \<lparr>tok_type = TOKEN_STRING, tok_value = v\<rparr>]"
    by (simp add: tokenize_eq)
next
  assume "\<not> prefix keyword line"
  then show "tokenize line = [\<lparr>tok_type = TOKEN_UNKNOWN, tok_value = ''???''\<rparr>]"
    by (simp add: tokenize_eq)
next
  assume "prefix keyword line \<and> \<not> sublist separator line"
  then show "tokenize line = [\<lparr>tok_type = TOKEN_PRINT, tok_value = keyword\<rparr>]"
    by (simp add: tokenize_eq strstr_None [symmetric])
qed

theorem tokenize_shape_witness:
  "prefix keyword (keyword @ [SP] @ separator @ '' Hi'' @ [NL]) \<and>
   sublist separator (keyword @ [SP] @ separator @ '' Hi'' @ [NL]) \<and>
   (\<exists>v. tokenize (keyword @ [SP] @ separator @ '' Hi'' @ [NL]) =
         [\<lparr>tok_type = TOKEN_PRINT, tok_value = keyword\<rparr>,
          \<lparr>tok_type = TOKEN_SEPARATOR, tok_value = separator\<rparr>,
          \<lparr>tok_type = TOKEN_STRING, tok_value = v\<rparr>]) \<and>
   \<not> prefix keyword (''foo bar'' @ [NL]) \<and>
   tokenize (''foo bar'' @ [NL]) = [\<lparr>tok_type = TOKEN_UNKNOWN, tok_value = ''???''\<rparr>] \<and>
   prefix keyword (keyword @ [SP, NL]) \<and> \<not> sublist separator (keyword @ [SP, NL]) \<and>
   tokenize (keyword @ [SP, NL]) = [\<lparr>tok_type = TOKEN_PRINT, tok_value = keyword\<rparr>]"
proof -
  have a: "prefix keyword (keyword @ [SP] @ separator @ '' Hi'' @ [NL])" by simp
  have b: "sublist separator (keyword @ [SP] @ separator @ '' Hi'' @ [NL])"
    using sublist_appendI [of separator "keyword @ [SP]" "'' Hi'' @ [NL]"] by simp
  have c: "\<not> prefix keyword (''foo bar'' @ [NL])" by (simp add: keyword_def)
  have d: "prefix keyword (keyword @ [SP, NL])" by simp
  have e: "\<not> sublist separator (keyword @ [SP, NL])"
    by (simp add: keyword_def separator_def SP_def NL_def sublist_Cons_right)
  show ?thesis
    using a b c d e
      tokenize_shape [of "keyword @ [SP] @ separator @ '' Hi'' @ [NL]"]
      tokenize_shape [of "''foo bar'' @ [NL]"]
      tokenize_shape [of "keyword @ [SP, NL]"]
    by simp
qed

text \<open>
  C8. \<open>tokenize\<close> returns exactly one or exactly three tokens, never none and never two:
  where the separator is found after the keyword, the Separator token and a StringLiteral
  token come together, and a token list holds the one kind exactly when it holds the other.
\<close>

theorem tokenize_one_or_three:
  "(length (tokenize line) = 1 \<or> length (tokenize line) = 3) \<and>
   (prefix keyword line \<and> sublist separator line \<longrightarrow>
      (\<exists>v. tokenize line =
         [\<lparr>tok_type = TOKEN_PRINT, tok_value = keyword\<rparr>,
          \<lparr>tok_type = TOKEN_SEPARATOR, tok_value = separator\<rparr>,
          \<lparr>tok_type = TOKEN_STRING, tok_value = v\<rparr>])) \<and>
   (TOKEN_SEPARATOR \<in> tok_type ` set (tokenize line) \<longleftrightarrow>
    TOKEN_STRING \<in> tok_type ` set (tokenize line))"
proof (intro conjI impI)
  show "length (tokenize line) = 1 \<or> length (tokenize line) = 3"
    by (rule tokenize_length)
next
  assume h: "prefix keyword line \<and> sublist separator line"
  then obtain s where "strstr line separator = Some s"
    using strstr_None [of line separator] by auto
  with h show "\<exists>v. tokenize line =
         [\<lparr>tok_type = TOKEN_PRINT, tok_value = keyword\<rparr>,
          \<lparr>tok_type = TOKEN_SEPARATOR, tok_value = separator\<rparr>,
          \<lparr>tok_type = TOKEN_STRING, tok_value = v\<rparr>]"
    by (simp add: tokenize_eq)
next
  show "TOKEN_SEPARATOR \<in> tok_type ` set (tokenize line) \<longleftrightarrow>
        TOKEN_STRING \<in> tok_type ` set (tokenize line)"
    by (simp add: tokenize_eq split: option.split)
qed

theorem tokenize_one_or_three_witness:
  "prefix keyword (keyword @ separator) \<and> sublist separator (keyword @ separator) \<and>
   length (tokenize (keyword @ separator)) = 3 \<and>
   TOKEN_SEPARATOR \<in> tok_type ` set (tokenize (keyword @ separator)) \<and>
   TOKEN_STRING \<in> tok_type ` set (tokenize (keyword @ separator))"
proof -
  have a: "prefix keyword (keyword @ separator)" by simp
  have b: "sublist separator (keyword @ separator)"
    using sublist_appendI [of separator keyword "[]"] by simp
  show ?thesis
    using a b tokenize_one_or_three [of "keyword @ separator"] by auto
qed

text \<open>
  C7. No token of kind StringLiteral that \<open>tokenize\<close> produces holds a line terminator:
  the text is cut at the first one.
\<close>

theorem string_token_no_newline:
  "\<forall>t \<in> set (tokenize line). tok_type t = TOKEN_STRING \<longrightarrow> NL \<notin> set (tok_value t)"
  by (auto simp: tokenize_eq split: option.splits if_splits dest: set_takeWhileD)

theorem string_token_no_newline_witness:
  "\<lparr>tok_type = TOKEN_STRING, tok_value = ''Hi''\<rparr>
     \<in> set (tokenize (keyword @ [SP] @ separator @ '' Hi'' @ [NL])) \<and>
   NL \<notin> set ''Hi''"
proof -
  have "tokenize (keyword @ replicate (Suc 0) SP @ separator @ '' Hi'' @ [NL]) =
           [\<lparr>tok_type = TOKEN_PRINT, tok_value = keyword\<rparr>,
            \<lparr>tok_type = TOKEN_SEPARATOR, tok_value = separator\<rparr>,
            \<lparr>tok_type = TOKEN_STRING, tok_value = take 511 (dropWhile (\<lambda>c. c = SP) '' Hi'')\<rparr>]"
    by (rule tokenize_print_line [OF refl]) (simp_all add: NL_def)
  then have m: "\<lparr>tok_type = TOKEN_STRING, tok_value = ''Hi''\<rparr>
     \<in> set (tokenize (keyword @ [SP] @ separator @ '' Hi'' @ [NL]))"
    by (simp add: SP_def)
  show ?thesis
    using m string_token_no_newline [of "keyword @ [SP] @ separator @ '' Hi'' @ [NL]"]
    by auto
qed


lemma take_no_newline:
  assumes "is_line (xs @ d)" "n < length d"
  shows "NL \<notin> set (take n d)"
proof -
  from assms(2) have ne: "d \<noteq> []" by auto
  then have "butlast (xs @ d) = xs @ butlast d" by (simp add: butlast_append)
  with assms(1) have "NL \<notin> set (butlast d)" by (simp add: is_line_def)
  moreover have "take n d = take n (butlast d)"
    using assms(2) by (simp add: take_butlast)
  ultimately show ?thesis by (auto dest: in_set_takeD)
qed

text \<open>
  C9. The text of the StringLiteral token is at most 511 bytes long: where what is left of
  the input line after the separator and the spaces that follow it is longer, the token
  carries its first 511 bytes, and \<open>tokenize\<close> returns its three tokens as ever, without
  any error.
\<close>

theorem string_token_truncated:
  "(\<forall>t \<in> set (tokenize line). tok_type t = TOKEN_STRING \<longrightarrow> length (tok_value t) \<le> 511) \<and>
   (prefix keyword line \<and> line = pre @ separator @ rest \<and>
    \<not> sublist separator (pre @ butlast separator) \<and> is_line line \<and>
    511 < length (dropWhile (\<lambda>c. c = SP) rest) \<longrightarrow>
      tokenize line =
        [\<lparr>tok_type = TOKEN_PRINT, tok_value = keyword\<rparr>,
         \<lparr>tok_type = TOKEN_SEPARATOR, tok_value = separator\<rparr>,
         \<lparr>tok_type = TOKEN_STRING, tok_value = take 511 (dropWhile (\<lambda>c. c = SP) rest)\<rparr>])"
proof (intro conjI impI)
  have "length (takeWhile (\<lambda>c. c \<noteq> NL) (take 511 xs)) \<le> 511" for xs :: string
    using length_takeWhile_le [of "\<lambda>c. c \<noteq> NL" "take 511 xs"] by simp
  then show "\<forall>t \<in> set (tokenize line). tok_type t = TOKEN_STRING \<longrightarrow> length (tok_value t) \<le> 511"
    by (auto simp: tokenize_eq split: option.splits if_splits)
next
  let ?d = "dropWhile (\<lambda>c. c = SP) rest"
  assume h: "prefix keyword line \<and> line = pre @ separator @ rest \<and>
    \<not> sublist separator (pre @ butlast separator) \<and> is_line line \<and> 511 < length ?d"
  have ne: "separator \<noteq> []" and l: "length separator = 3" by (simp_all add: separator_def)
  from h have s: "strstr line separator = Some (separator @ rest)"
    using strstr_first [of separator pre rest] ne by simp
  have "rest = takeWhile (\<lambda>c. c = SP) rest @ ?d" by simp
  then have "line = (pre @ separator @ takeWhile (\<lambda>c. c = SP) rest) @ ?d"
    using h by simp
  with h have il: "is_line ((pre @ separator @ takeWhile (\<lambda>c. c = SP) rest) @ ?d)" by metis
  have "NL \<notin> set (take 511 ?d)"
    using take_no_newline [OF il] h by simp
  then have "takeWhile (\<lambda>c. c \<noteq> NL) (take 511 ?d) = take 511 ?d"
    by (auto simp: takeWhile_eq_all_conv)
  moreover from h have "prefix keyword line" by blast
  ultimately show "tokenize line =
        [\<lparr>tok_type = TOKEN_PRINT, tok_value = keyword\<rparr>,
         \<lparr>tok_type = TOKEN_SEPARATOR, tok_value = separator\<rparr>,
         \<lparr>tok_type = TOKEN_STRING, tok_value = take 511 ?d\<rparr>]"
    using s l by (simp add: tokenize_eq)
qed

theorem string_token_truncated_witness:
  "prefix keyword (keyword @ [SP] @ separator @ SP # replicate 600 (CHR ''a'') @ [NL]) \<and>
   \<not> sublist separator ((keyword @ [SP]) @ butlast separator) \<and>
   is_line (keyword @ [SP] @ separator @ SP # replicate 600 (CHR ''a'') @ [NL]) \<and>
   511 < length (dropWhile (\<lambda>c. c = SP) (SP # replicate 600 (CHR ''a'') @ [NL])) \<and>
   tokenize (keyword @ [SP] @ separator @ SP # replicate 600 (CHR ''a'') @ [NL]) =
     [\<lparr>tok_type = TOKEN_PRINT, tok_value = keyword\<rparr>,
      \<lparr>tok_type = TOKEN_SEPARATOR, tok_value = separator\<rparr>,
      \<lparr>tok_type = TOKEN_STRING, tok_value = replicate 511 (CHR ''a'')\<rparr>] \<and>
   length (replicate 511 (CHR ''a'')) \<le> 511"
proof -
  let ?rest = "SP # replicate 600 (CHR ''a'') @ [NL]"
  let ?line = "keyword @ [SP] @ separator @ ?rest"
  have a: "prefix keyword ?line" by simp
  have b: "\<not> sublist separator ((keyword @ [SP]) @ butlast separator)"
    by (simp add: keyword_def separator_def SP_def sublist_Cons_right)
  have c: "is_line ?line"
    by (simp add: is_line_def butlast_append keyword_def separator_def SP_def NL_def)
  have d: "dropWhile (\<lambda>c. c = SP) ?rest = replicate 600 (CHR ''a'') @ [NL]"
    by (simp add: SP_def dropWhile_append3)
  have e: "?line = (keyword @ [SP]) @ separator @ ?rest" by simp
  have f: "take 511 (dropWhile (\<lambda>c. c = SP) ?rest) = replicate 511 (CHR ''a'')"
    by (simp add: SP_def dropWhile_append3)
  have g: "511 < length (dropWhile (\<lambda>c. c = SP) ?rest)"
    by (simp add: SP_def dropWhile_append3)
  have "tokenize ?line =
     [\<lparr>tok_type = TOKEN_PRINT, tok_value = keyword\<rparr>,
      \<lparr>tok_type = TOKEN_SEPARATOR, tok_value = separator\<rparr>,
      \<lparr>tok_type = TOKEN_STRING, tok_value = take 511 (dropWhile (\<lambda>c. c = SP) ?rest)\<rparr>]"
    using a b c e g string_token_truncated [of ?line "keyword @ [SP]" ?rest] by blast
  with a b c g f show ?thesis by simp
qed


section \<open>The parser\<close>

lemma matches_at_kinds:
  "matches_at tokens i \<longleftrightarrow>
   map tok_type (take 3 (drop i tokens)) = [TOKEN_PRINT, TOKEN_SEPARATOR, TOKEN_STRING]"
proof (cases "i + 2 < length tokens")
  case True
  then have "take 3 (drop i tokens) = [tokens ! i, tokens ! (i + 1), tokens ! (i + 2)]"
    by (auto simp: list_eq_iff_nth_eq nth_Cons' numeral_3_eq_3 less_Suc_eq)
  with True show ?thesis by (simp add: matches_at_def)
next
  case False
  then have "length (take 3 (drop i tokens)) < 3" by simp
  then have "map tok_type (take 3 (drop i tokens)) \<noteq> [TOKEN_PRINT, TOKEN_SEPARATOR, TOKEN_STRING]"
    by (metis length_map length_Cons list.size(3) numeral_3_eq_3 less_irrefl)
  with False show ?thesis by (simp add: matches_at_def)
qed

lemma parse_loop_fail:
  "i < length tokens \<Longrightarrow> \<not> matches_at tokens i \<Longrightarrow>
   parse_loop tokens i prog = Inl (SyntaxError i (tok_value (tokens ! i)))"
  by (subst parse_loop.simps) simp

lemma parse_loop_exit:
  "\<not> i < length tokens \<Longrightarrow> parse_loop tokens i prog = Inr (i, prog)"
  by (subst parse_loop.simps) simp

lemma parse_loop_step:
  "matches_at tokens i \<Longrightarrow>
   parse_loop tokens i prog =
   parse_loop tokens (i + 3)
     (prog @ [\<lparr>stmt_type = STMT_PRINT, stmt_value = tok_value (tokens ! (i + 2))\<rparr>])"
  by (subst parse_loop.simps) (simp add: matches_at_def strdup_def)

lemma parse_loop_prefix:
  "(\<forall>j<k. matches_at tokens (3 * j)) \<Longrightarrow>
   parse_loop tokens 0 [] = parse_loop tokens (3 * k) (map (stmt_of tokens) [0..<k])"
proof (induction k)
  case 0
  then show ?case by simp
next
  case (Suc k)
  then have m: "matches_at tokens (3 * k)"
    and ih: "parse_loop tokens 0 [] = parse_loop tokens (3 * k) (map (stmt_of tokens) [0..<k])"
    by simp_all
  have "parse_loop tokens (3 * k) (map (stmt_of tokens) [0..<k]) =
        parse_loop tokens (3 * k + 3) (map (stmt_of tokens) [0..<k] @ [stmt_of tokens k])"
    by (simp only: parse_loop_step [OF m] stmt_of_def)
  then show ?case using ih by (simp add: add.commute)
qed

lemma parse_fail_at:
  assumes "\<forall>j<k. matches_at tokens (3 * j)" "3 * k < length tokens"
    "\<not> matches_at tokens (3 * k)"
  shows "parse_tokens tokens = Inl (SyntaxError (3 * k) (tok_value (tokens ! (3 * k))))"
  using parse_loop_prefix [OF assms(1)] parse_loop_fail [OF assms(2,3)]
  by (simp add: parse_tokens_def)

lemma parse_loop_success:
  "parse_loop tokens i prog = Inr (j, prog') \<Longrightarrow> i \<le> length tokens \<Longrightarrow> i = 3 * length prog \<Longrightarrow>
   (\<forall>k<length prog. matches_at tokens (3 * k) \<and> prog ! k = stmt_of tokens k) \<Longrightarrow>
   j = length tokens \<and> j = 3 * length prog' \<and>
   (\<forall>k<length prog'. matches_at tokens (3 * k) \<and> prog' ! k = stmt_of tokens k)"
proof (induction tokens i prog rule: parse_loop.induct)
  case (1 tokens i prog)
  show ?case
  proof (cases "i < length tokens")
    case False
    with "1.prems" show ?thesis by (auto simp: parse_loop_exit)
  next
    case True
    show ?thesis
    proof (cases "matches_at tokens i")
      case False
      with True "1.prems"(1) show ?thesis by (simp add: parse_loop_fail)
    next
      case m: True
      let ?stmt = "\<lparr>stmt_type = STMT_PRINT, stmt_value = strdup (tok_value (tokens ! (i + 2)))\<rparr>"
      have step: "parse_loop tokens (i + 3) (prog @ [?stmt]) = Inr (j, prog')"
        using "1.prems"(1) parse_loop_step [OF m] by (simp add: strdup_def)
      have le: "i + 3 \<le> length tokens" using m by (simp add: matches_at_def)
      have eq: "i + 3 = 3 * length (prog @ [?stmt])" using "1.prems"(3) by simp
      have st: "?stmt = stmt_of tokens (length prog)"
        using "1.prems"(3) by (simp add: stmt_of_def strdup_def add.commute)
      have inv: "\<forall>k<length (prog @ [?stmt]).
                   matches_at tokens (3 * k) \<and> (prog @ [?stmt]) ! k = stmt_of tokens k"
      proof (intro allI impI)
        fix k assume "k < length (prog @ [?stmt])"
        then consider "k < length prog" | "k = length prog" by fastforce
        then show "matches_at tokens (3 * k) \<and> (prog @ [?stmt]) ! k = stmt_of tokens k"
        proof cases
          case 1
          then show ?thesis using "1.prems"(4) by (simp add: nth_append)
        next
          case 2
          then show ?thesis using m "1.prems"(3) st by (simp add: nth_append)
        qed
      qed
      show ?thesis
        using "1.IH" [OF True m refl step le eq inv] .
    qed
  qed
qed

lemma parse_three:
  "parse_tokens [\<lparr>tok_type = TOKEN_PRINT, tok_value = a\<rparr>,
                 \<lparr>tok_type = TOKEN_SEPARATOR, tok_value = b\<rparr>,
                 \<lparr>tok_type = TOKEN_STRING, tok_value = v\<rparr>]
   = Inr [\<lparr>stmt_type = STMT_PRINT, stmt_value = v\<rparr>]"
proof -
  let ?ts = "[\<lparr>tok_type = TOKEN_PRINT, tok_value = a\<rparr>,
              \<lparr>tok_type = TOKEN_SEPARATOR, tok_value = b\<rparr>,
              \<lparr>tok_type = TOKEN_STRING, tok_value = v\<rparr>]"
  have m: "matches_at ?ts 0" by (simp add: matches_at_def)
  show ?thesis
    using parse_loop_step [OF m, of "[]"] parse_loop_exit [of 3 ?ts]
    by (simp add: parse_tokens_def)
qed

text \<open>The loop body does not run on the empty token sequence.\<close>

lemma parse_empty: "parse_tokens [] = Inr []"
  by (simp add: parse_tokens_def parse_loop_exit)

text \<open>
  C3. Whenever the three-token match fails at the position the scan stands at, also when
  fewer than three tokens are left there, \<open>parse\<close> fails with a SyntaxError that carries
  that position and the text of the token at that position, and there is no Program. In
  particular a token sequence that does not match the grammar at position 0 (a lone Unknown
  token, a Keyword-Print not followed by Separator and StringLiteral) fails with a
  SyntaxError at position 0. The scan stands at \<open>3 * k\<close> after \<open>k\<close> matches, on a token.
\<close>

theorem parse_syntax_error:
  "((\<forall>j<k. matches_at tokens (3 * j)) \<and> 3 * k < length tokens \<and> \<not> matches_at tokens (3 * k) \<longrightarrow>
      parse_tokens tokens = Inl (SyntaxError (3 * k) (tok_value (tokens ! (3 * k))))) \<and>
   ((\<forall>j<k. matches_at tokens (3 * j)) \<and> 3 * k < length tokens \<and> length tokens < 3 * k + 3 \<longrightarrow>
      parse_tokens tokens = Inl (SyntaxError (3 * k) (tok_value (tokens ! (3 * k))))) \<and>
   (tokens \<noteq> [] \<and>
    map tok_type (take 3 tokens) \<noteq> [TOKEN_PRINT, TOKEN_SEPARATOR, TOKEN_STRING] \<longrightarrow>
      parse_tokens tokens = Inl (SyntaxError 0 (tok_value (tokens ! 0)))) \<and>
   parse_tokens [\<lparr>tok_type = TOKEN_UNKNOWN, tok_value = v\<rparr>] = Inl (SyntaxError 0 v) \<and>
   (map tok_type (take 2 rest) \<noteq> [TOKEN_SEPARATOR, TOKEN_STRING] \<longrightarrow>
      parse_tokens (\<lparr>tok_type = TOKEN_PRINT, tok_value = v\<rparr> # rest) = Inl (SyntaxError 0 v))"
proof (intro conjI impI)
  assume "(\<forall>j<k. matches_at tokens (3 * j)) \<and> 3 * k < length tokens \<and> \<not> matches_at tokens (3 * k)"
  then show "parse_tokens tokens = Inl (SyntaxError (3 * k) (tok_value (tokens ! (3 * k))))"
    by (simp add: parse_fail_at)
next
  assume h: "(\<forall>j<k. matches_at tokens (3 * j)) \<and> 3 * k < length tokens \<and> length tokens < 3 * k + 3"
  then have "\<not> matches_at tokens (3 * k)" by (simp add: matches_at_def)
  with h show "parse_tokens tokens = Inl (SyntaxError (3 * k) (tok_value (tokens ! (3 * k))))"
    by (simp add: parse_fail_at)
next
  assume "tokens \<noteq> [] \<and>
    map tok_type (take 3 tokens) \<noteq> [TOKEN_PRINT, TOKEN_SEPARATOR, TOKEN_STRING]"
  then have "0 < length tokens" "\<not> matches_at tokens 0"
    by (simp_all add: matches_at_kinds)
  then show "parse_tokens tokens = Inl (SyntaxError 0 (tok_value (tokens ! 0)))"
    using parse_fail_at [of 0 tokens] by simp
next
  have "\<not> matches_at [\<lparr>tok_type = TOKEN_UNKNOWN, tok_value = v\<rparr>] 0"
    by (simp add: matches_at_def)
  then show "parse_tokens [\<lparr>tok_type = TOKEN_UNKNOWN, tok_value = v\<rparr>] = Inl (SyntaxError 0 v)"
    using parse_fail_at [of 0 "[\<lparr>tok_type = TOKEN_UNKNOWN, tok_value = v\<rparr>]"] by simp
next
  assume "map tok_type (take 2 rest) \<noteq> [TOKEN_SEPARATOR, TOKEN_STRING]"
  then have "\<not> matches_at (\<lparr>tok_type = TOKEN_PRINT, tok_value = v\<rparr> # rest) 0"
    by (simp add: matches_at_kinds numeral_3_eq_3 numeral_2_eq_2)
  then show "parse_tokens (\<lparr>tok_type = TOKEN_PRINT, tok_value = v\<rparr> # rest) = Inl (SyntaxError 0 v)"
    using parse_fail_at [of 0 "\<lparr>tok_type = TOKEN_PRINT, tok_value = v\<rparr> # rest"] by simp
qed


theorem parse_syntax_error_witness:
  "matches_at [\<lparr>tok_type = TOKEN_PRINT, tok_value = keyword\<rparr>,
               \<lparr>tok_type = TOKEN_SEPARATOR, tok_value = separator\<rparr>,
               \<lparr>tok_type = TOKEN_STRING, tok_value = ''a''\<rparr>,
               \<lparr>tok_type = TOKEN_UNKNOWN, tok_value = ''???''\<rparr>] 0 \<and>
   \<not> matches_at [\<lparr>tok_type = TOKEN_PRINT, tok_value = keyword\<rparr>,
                 \<lparr>tok_type = TOKEN_SEPARATOR, tok_value = separator\<rparr>,
                 \<lparr>tok_type = TOKEN_STRING, tok_value = ''a''\<rparr>,
                 \<lparr>tok_type = TOKEN_UNKNOWN, tok_value = ''???''\<rparr>] (3 * 1) \<and>
   parse_tokens [\<lparr>tok_type = TOKEN_PRINT, tok_value = keyword\<rparr>,
                 \<lparr>tok_type = TOKEN_SEPARATOR, tok_value = separator\<rparr>,
                 \<lparr>tok_type = TOKEN_STRING, tok_value = ''a''\<rparr>,
                 \<lparr>tok_type = TOKEN_UNKNOWN, tok_value = ''???''\<rparr>]
     = Inl (SyntaxError 3 ''???'') \<and>
   map tok_type (take 3 [\<lparr>tok_type = TOKEN_PRINT, tok_value = keyword\<rparr>])
     \<noteq> [TOKEN_PRINT, TOKEN_SEPARATOR, TOKEN_STRING] \<and>
   parse_tokens [\<lparr>tok_type = TOKEN_PRINT, tok_value = keyword\<rparr>]
     = Inl (SyntaxError 0 keyword) \<and>
   map tok_type (take 2 [\<lparr>tok_type = TOKEN_UNKNOWN, tok_value = ''???''\<rparr>])
     \<noteq> [TOKEN_SEPARATOR, TOKEN_STRING] \<and>
   parse_tokens [\<lparr>tok_type = TOKEN_PRINT, tok_value = keyword\<rparr>,
                 \<lparr>tok_type = TOKEN_UNKNOWN, tok_value = ''???''\<rparr>]
     = Inl (SyntaxError 0 keyword)"
proof -
  let ?ts = "[\<lparr>tok_type = TOKEN_PRINT, tok_value = keyword\<rparr>,
              \<lparr>tok_type = TOKEN_SEPARATOR, tok_value = separator\<rparr>,
              \<lparr>tok_type = TOKEN_STRING, tok_value = ''a''\<rparr>,
              \<lparr>tok_type = TOKEN_UNKNOWN, tok_value = ''???''\<rparr>]"
  have a: "\<forall>j<1. matches_at ?ts (3 * j)" by (simp add: matches_at_def)
  have b: "\<not> matches_at ?ts (3 * 1)" by (simp add: matches_at_def)
  have c: "3 * 1 < length ?ts" "length ?ts < 3 * 1 + 3" by simp_all
  have d: "parse_tokens ?ts = Inl (SyntaxError 3 ''???'')"
    using a b c parse_syntax_error [of 1 ?ts] by simp
  have e: "parse_tokens [\<lparr>tok_type = TOKEN_PRINT, tok_value = keyword\<rparr>]
     = Inl (SyntaxError 0 keyword)"
    using parse_syntax_error [of 0 "[\<lparr>tok_type = TOKEN_PRINT, tok_value = keyword\<rparr>]"]
    by simp
  have f: "parse_tokens [\<lparr>tok_type = TOKEN_PRINT, tok_value = keyword\<rparr>,
                 \<lparr>tok_type = TOKEN_UNKNOWN, tok_value = ''???''\<rparr>]
     = Inl (SyntaxError 0 keyword)"
    using parse_syntax_error [of 0 "[]" keyword "[\<lparr>tok_type = TOKEN_UNKNOWN, tok_value = ''???''\<rparr>]"]
    by simp
  have a0: "matches_at ?ts 0" by (simp add: matches_at_def)
  show ?thesis using a0 b d e f by simp
qed

text \<open>
  C4. Where \<open>parse\<close> succeeds, the count of the Program times three is the number of
  tokens consumed, which is all of them, and every Statement is a Print statement built
  from a run Keyword-Print, Separator, StringLiteral, whose text it carries.
\<close>

theorem parse_success:
  assumes "parse_tokens tokens = Inr prog"
  shows "parse_loop tokens 0 [] = Inr (length tokens, prog) \<and>
         count prog * 3 = length tokens \<and>
         (\<forall>k<count prog.
            stmt_type (prog ! k) = STMT_PRINT \<and>
            stmt_value (prog ! k) = tok_value (tokens ! (3 * k + 2)) \<and>
            tok_type (tokens ! (3 * k)) = TOKEN_PRINT \<and>
            tok_type (tokens ! (3 * k + 1)) = TOKEN_SEPARATOR \<and>
            tok_type (tokens ! (3 * k + 2)) = TOKEN_STRING)"
proof -
  from assms obtain j where l: "parse_loop tokens 0 [] = Inr (j, prog)"
    by (auto simp: parse_tokens_def split: sum.splits)
  have r: "j = length tokens \<and> j = 3 * length prog \<and>
        (\<forall>k<length prog. matches_at tokens (3 * k) \<and> prog ! k = stmt_of tokens k)"
    by (rule parse_loop_success [OF l]) simp_all
  then have "\<forall>k<count prog.
            stmt_type (prog ! k) = STMT_PRINT \<and>
            stmt_value (prog ! k) = tok_value (tokens ! (3 * k + 2)) \<and>
            tok_type (tokens ! (3 * k)) = TOKEN_PRINT \<and>
            tok_type (tokens ! (3 * k + 1)) = TOKEN_SEPARATOR \<and>
            tok_type (tokens ! (3 * k + 2)) = TOKEN_STRING"
    by (simp add: count_def matches_at_def stmt_of_def)
  with l r show ?thesis by (simp add: count_def)
qed

theorem parse_success_witness:
  "parse_tokens [\<lparr>tok_type = TOKEN_PRINT, tok_value = keyword\<rparr>,
                 \<lparr>tok_type = TOKEN_SEPARATOR, tok_value = separator\<rparr>,
                 \<lparr>tok_type = TOKEN_STRING, tok_value = ''Hi''\<rparr>]
     = Inr [\<lparr>stmt_type = STMT_PRINT, stmt_value = ''Hi''\<rparr>] \<and>
   parse_loop [\<lparr>tok_type = TOKEN_PRINT, tok_value = keyword\<rparr>,
               \<lparr>tok_type = TOKEN_SEPARATOR, tok_value = separator\<rparr>,
               \<lparr>tok_type = TOKEN_STRING, tok_value = ''Hi''\<rparr>] 0 []
     = Inr (3, [\<lparr>stmt_type = STMT_PRINT, stmt_value = ''Hi''\<rparr>]) \<and>
   count [\<lparr>stmt_type = STMT_PRINT, stmt_value = ''Hi''\<rparr>] * 3 = 3"
proof -
  have h: "parse_tokens [\<lparr>tok_type = TOKEN_PRINT, tok_value = keyword\<rparr>,
                 \<lparr>tok_type = TOKEN_SEPARATOR, tok_value = separator\<rparr>,
                 \<lparr>tok_type = TOKEN_STRING, tok_value = ''Hi''\<rparr>]
     = Inr [\<lparr>stmt_type = STMT_PRINT, stmt_value = ''Hi''\<rparr>]"
    by (rule parse_three)
  show ?thesis using h parse_success [OF h] by (simp add: count_def)
qed


section \<open>Lexer and parser together\<close>

lemma tokenize_parse_line:
  assumes "line = keyword @ replicate m SP @ separator @ rest @ tm"
    and "tm = [] \<or> tm = [NL]" and "NL \<notin> set rest"
  shows "parse_tokens (tokenize line) =
           Inr [\<lparr>stmt_type = STMT_PRINT,
                 stmt_value = take 511 (dropWhile (\<lambda>c. c = SP) rest)\<rparr>]"
  by (simp only: tokenize_print_line [OF assms] parse_three)

text \<open>
  C1, as the code has it. For an input line of the form keyword, spaces, separator, text,
  with or without a line terminator at its end, \<open>tokenize\<close> and then \<open>parse\<close> give a
  Program of exactly one Print statement, whose content is the first 511 bytes of the
  text after the separator with its leading spaces removed and without the terminator.
\<close>

theorem tokenize_parse_print:
  assumes "line = keyword @ replicate m SP @ separator @ rest @ tm"
    and "tm = [] \<or> tm = [NL]" and "NL \<notin> set rest"
  shows "parse_tokens (tokenize line) =
           Inr [\<lparr>stmt_type = STMT_PRINT,
                 stmt_value = take 511 (dropWhile (\<lambda>c. c = SP) rest)\<rparr>]"
  using assms by (rule tokenize_parse_line)

theorem tokenize_parse_print_witness:
  "NL \<notin> set '' Hello, World!'' \<and>
   parse_tokens (tokenize (keyword @ replicate 1 SP @ separator @ '' Hello, World!'' @ [NL])) =
     Inr [\<lparr>stmt_type = STMT_PRINT, stmt_value = ''Hello, World!''\<rparr>]"
proof -
  have a: "NL \<notin> set '' Hello, World!''" by (simp add: NL_def)
  have b: "[NL] = [] \<or> [NL] = [NL]" by simp
  show ?thesis
    using a tokenize_parse_print [OF refl b a, of 1] by (simp add: SP_def)
qed

text \<open>
  The content is not always the whole text: a text of 512 bytes loses its last byte.
\<close>

theorem tokenize_parse_print_counterexample:
  "parse_tokens (tokenize (keyword @ [SP] @ separator @ [SP] @ replicate 512 (CHR ''a'') @ [NL])) =
     Inr [\<lparr>stmt_type = STMT_PRINT, stmt_value = replicate 511 (CHR ''a'')\<rparr>] \<and>
   parse_tokens (tokenize (keyword @ [SP] @ separator @ [SP] @ replicate 512 (CHR ''a'') @ [NL])) \<noteq>
     Inr [\<lparr>stmt_type = STMT_PRINT, stmt_value = replicate 512 (CHR ''a'')\<rparr>]"
proof -
  have a: "NL \<notin> set (SP # replicate 512 (CHR ''a''))" by (simp add: NL_def SP_def)
  have b: "[NL] = [] \<or> [NL] = [NL]" by simp
  have c: "keyword @ [SP] @ separator @ [SP] @ replicate 512 (CHR ''a'') @ [NL] =
           keyword @ replicate (Suc 0) SP @ separator @ (SP # replicate 512 (CHR ''a'')) @ [NL]"
    by simp
  have d: "take 511 (dropWhile (\<lambda>c. c = SP) (SP # replicate 512 (CHR ''a''))) =
           replicate 511 (CHR ''a'')"
    by (simp add: SP_def)
  have "parse_tokens (tokenize (keyword @ [SP] @ separator @ [SP] @ replicate 512 (CHR ''a'') @ [NL])) =
     Inr [\<lparr>stmt_type = STMT_PRINT, stmt_value = replicate 511 (CHR ''a'')\<rparr>]"
    using tokenize_parse_line [OF c b a] d by simp
  then show ?thesis by simp
qed


section \<open>The code generator\<close>

lemma show_nat_examples: "show_nat 0 = ''0''" "show_nat 7 = ''7''" "show_nat 42 = ''42''"
  by (simp_all add: show_nat.simps digit_char_def)

lemma data_loop_eq:
  "data_loop program i f =
   f @ concat (map (\<lambda>j. spec_data_lines j (stmt_value (program ! j))) [i..<count program])"
proof (induction program i f rule: data_loop.induct)
  case (1 program i f)
  show ?case
  proof (cases "i < count program")
    case False
    then show ?thesis by (subst data_loop.simps) simp
  next
    case True
    have k: "stmt_type (program ! i) = STMT_PRINT" by (cases "stmt_type (program ! i)") simp
    have u: "[i..<count program] = i # [i + 1..<count program]"
      using True by (simp add: upt_conv_Cons)
    show ?thesis
      using True k "1.IH" [OF True k refl refl]
      by (subst data_loop.simps) (simp add: u fprintf_def spec_data_lines_def)
  qed
qed

lemma text_loop_eq:
  "text_loop program i f = f @ concat (map spec_write_block [i..<count program])"
proof (induction program i f rule: text_loop.induct)
  case (1 program i f)
  show ?case
  proof (cases "i < count program")
    case False
    then show ?thesis by (subst text_loop.simps) simp
  next
    case True
    have k: "stmt_type (program ! i) = STMT_PRINT" by (cases "stmt_type (program ! i)") simp
    have u: "[i..<count program] = i # [i + 1..<count program]"
      using True by (simp add: upt_conv_Cons)
    let ?F = "fprintf (fprintf (fprintf (fprintf (fprintf f
                (''    mov rax, 1'' @ [NL]))
                (''    mov rdi, 1'' @ [NL]))
                (''    mov rsi, msg'' @ show_nat i @ [NL]))
                (''    mov rdx, len'' @ show_nat i @ [NL]))
                (''    syscall'' @ [NL, NL])"
    have ih: "text_loop program (i + 1) ?F =
              ?F @ concat (map spec_write_block [i + 1..<count program])"
      by (rule "1.IH" [OF True k refl refl refl refl refl])
    have w: "?F = f @ spec_write_block i"
      by (simp add: fprintf_def spec_write_block_def)
    have step: "text_loop program i f = text_loop program (i + 1) ?F"
      using True k by (subst text_loop.simps) (simp add: Let_def)
    have "?F @ concat (map spec_write_block [i + 1..<count program]) =
          f @ concat (map spec_write_block [i..<count program])"
      by (simp only: w u) simp
    with step ih show ?thesis by (simp only:)
  qed
qed

lemma generate_code_eq:
  "generate_code True program =
     Inr (''section .data'' @ [NL] @
          concat (map (\<lambda>i. spec_data_lines i (stmt_value (program ! i))) [0..<count program]) @
          [NL] @ ''section .text'' @ [NL] @
          ''global _start'' @ [NL] @
          ''_start:'' @ [NL] @
          concat (map spec_write_block [0..<count program]) @
          spec_exit_block)"
  by (simp add: generate_code_def data_loop_eq text_loop_eq fprintf_def spec_exit_block_def)

text \<open>
  C2. For every Program, \<open>generate\<close> writes the data section, holding for each Print
  statement \<open>i\<close>, in the order of the statements, the two lines of \<open>msg{i}\<close> and
  \<open>len{i}\<close>; then the text section with \<open>global _start\<close> and the label \<open>_start:\<close>,
  for each statement \<open>i\<close> in the same order its block of five lines that sets syscall
  number 1, file descriptor 1, buffer \<open>msg{i}\<close>, length \<open>len{i}\<close> and invokes the
  syscall; and last the exit block. Index \<open>i\<close> names the lines of statement \<open>i\<close> only.
\<close>

theorem generate_code_layout:
  "generate_code True program =
     Inr (''section .data'' @ [NL] @
          concat (map (\<lambda>i. spec_data_lines i (stmt_value (program ! i))) [0..<count program]) @
          [NL] @ ''section .text'' @ [NL] @
          ''global _start'' @ [NL] @
          ''_start:'' @ [NL] @
          concat (map spec_write_block [0..<count program]) @
          spec_exit_block)"
  by (rule generate_code_eq)


theorem generate_code_layout_witness:
  "generate_code True [\<lparr>stmt_type = STMT_PRINT, stmt_value = ''Hi''\<rparr>,
                       \<lparr>stmt_type = STMT_PRINT, stmt_value = ''there''\<rparr>] =
     Inr (''section .data'' @ [NL] @
          ''msg0 db '' @ [DQ] @ ''Hi'' @ [DQ] @ '', 0xA'' @ [NL] @
          ''len0 equ $ - msg0'' @ [NL] @
          ''msg1 db '' @ [DQ] @ ''there'' @ [DQ] @ '', 0xA'' @ [NL] @
          ''len1 equ $ - msg1'' @ [NL] @
          [NL] @ ''section .text'' @ [NL] @
          ''global _start'' @ [NL] @
          ''_start:'' @ [NL] @
          ''    mov rax, 1'' @ [NL] @
          ''    mov rdi, 1'' @ [NL] @
          ''    mov rsi, msg0'' @ [NL] @
          ''    mov rdx, len0'' @ [NL] @
          ''    syscall'' @ [NL] @ [NL] @
          ''    mov rax, 1'' @ [NL] @
          ''    mov rdi, 1'' @ [NL] @
          ''    mov rsi, msg1'' @ [NL] @
          ''    mov rdx, len1'' @ [NL] @
          ''    syscall'' @ [NL] @ [NL] @
          ''    mov rax, 60'' @ [NL] @
          ''    xor rdi, rdi'' @ [NL] @
          ''    syscall'' @ [NL])"
proof -
  have n: "show_nat 0 = ''0''" "show_nat (Suc 0) = ''1''"
    by (simp_all add: show_nat.simps digit_char_def)
  show ?thesis
    using generate_code_layout [of "[\<lparr>stmt_type = STMT_PRINT, stmt_value = ''Hi''\<rparr>,
                                     \<lparr>stmt_type = STMT_PRINT, stmt_value = ''there''\<rparr>]"]
    by (simp add: count_def n spec_data_lines_def spec_write_block_def spec_exit_block_def)
qed

section \<open>The three stages on an empty literal\<close>

text \<open>
  C10. For a line made of the keyword and the separator, followed by nothing, by spaces
  only or by a line terminator only, \<open>tokenize\<close> gives a StringLiteral token with empty
  text, \<open>parse\<close> succeeds with one Print statement whose content is the empty string, and
  \<open>generate\<close> writes the data line \<open>msg0 db "", 0xA\<close> for it.
\<close>

theorem empty_literal_pipeline:
  assumes "line = keyword @ replicate m SP @ separator @ replicate n SP @ tm"
    and "tm = [] \<or> tm = [NL]"
  shows "tokenize line =
           [\<lparr>tok_type = TOKEN_PRINT, tok_value = keyword\<rparr>,
            \<lparr>tok_type = TOKEN_SEPARATOR, tok_value = separator\<rparr>,
            \<lparr>tok_type = TOKEN_STRING, tok_value = []\<rparr>] \<and>
         parse_tokens (tokenize line) = Inr [\<lparr>stmt_type = STMT_PRINT, stmt_value = []\<rparr>] \<and>
         generate_code True [\<lparr>stmt_type = STMT_PRINT, stmt_value = []\<rparr>] =
           Inr (''section .data'' @ [NL] @
                ''msg0 db '' @ [DQ] @ [DQ] @ '', 0xA'' @ [NL] @
                ''len0 equ $ - msg0'' @ [NL] @
                [NL] @ ''section .text'' @ [NL] @
                ''global _start'' @ [NL] @
                ''_start:'' @ [NL] @
                ''    mov rax, 1'' @ [NL] @
                ''    mov rdi, 1'' @ [NL] @
                ''    mov rsi, msg0'' @ [NL] @
                ''    mov rdx, len0'' @ [NL] @
                ''    syscall'' @ [NL] @ [NL] @
                ''    mov rax, 60'' @ [NL] @
                ''    xor rdi, rdi'' @ [NL] @
                ''    syscall'' @ [NL])"
proof -
  have s: "NL \<notin> set (replicate n SP)" by (simp add: NL_def SP_def)
  have e: "take 511 (dropWhile (\<lambda>c. c = SP) (replicate n SP)) = []" by simp
  have t: "tokenize line =
           [\<lparr>tok_type = TOKEN_PRINT, tok_value = keyword\<rparr>,
            \<lparr>tok_type = TOKEN_SEPARATOR, tok_value = separator\<rparr>,
            \<lparr>tok_type = TOKEN_STRING, tok_value = []\<rparr>]"
    using tokenize_print_line [OF assms s] e by simp
  have p: "parse_tokens (tokenize line) = Inr [\<lparr>stmt_type = STMT_PRINT, stmt_value = []\<rparr>]"
    by (simp only: t parse_three)
  have n: "show_nat 0 = ''0''" by (simp add: show_nat.simps digit_char_def)
  have g: "generate_code True [\<lparr>stmt_type = STMT_PRINT, stmt_value = []\<rparr>] =
           Inr (''section .data'' @ [NL] @
                ''msg0 db '' @ [DQ] @ [DQ] @ '', 0xA'' @ [NL] @
                ''len0 equ $ - msg0'' @ [NL] @
                [NL] @ ''section .text'' @ [NL] @
                ''global _start'' @ [NL] @
                ''_start:'' @ [NL] @
                ''    mov rax, 1'' @ [NL] @
                ''    mov rdi, 1'' @ [NL] @
                ''    mov rsi, msg0'' @ [NL] @
                ''    mov rdx, len0'' @ [NL] @
                ''    syscall'' @ [NL] @ [NL] @
                ''    mov rax, 60'' @ [NL] @
                ''    xor rdi, rdi'' @ [NL] @
                ''    syscall'' @ [NL])"
    by (simp add: generate_code_eq count_def n spec_data_lines_def spec_write_block_def
        spec_exit_block_def)
  from t p g show ?thesis by (intro conjI)
qed

theorem empty_literal_pipeline_witness:
  "parse_tokens (tokenize (keyword @ [SP] @ separator)) =
     Inr [\<lparr>stmt_type = STMT_PRINT, stmt_value = []\<rparr>] \<and>
   parse_tokens (tokenize (keyword @ [SP] @ separator @ [SP, SP])) =
     Inr [\<lparr>stmt_type = STMT_PRINT, stmt_value = []\<rparr>] \<and>
   parse_tokens (tokenize (keyword @ [SP] @ separator @ [NL])) =
     Inr [\<lparr>stmt_type = STMT_PRINT, stmt_value = []\<rparr>]"
proof -
  have a: "keyword @ [SP] @ separator = keyword @ replicate 1 SP @ separator @ replicate 0 SP @ []"
    by simp
  have b: "keyword @ [SP] @ separator @ [SP, SP] =
           keyword @ replicate 1 SP @ separator @ replicate 2 SP @ []"
    by (simp add: numeral_2_eq_2)
  have c: "keyword @ [SP] @ separator @ [NL] =
           keyword @ replicate 1 SP @ separator @ replicate 0 SP @ [NL]"
    by simp
  have d: "[] = [] \<or> [] = [NL]" "[NL] = [] \<or> [NL] = [NL]" by simp_all
  note r1 = empty_literal_pipeline [OF a d(1), THEN conjunct2, THEN conjunct1]
  note r2 = empty_literal_pipeline [OF b d(1), THEN conjunct2, THEN conjunct1]
  note r3 = empty_literal_pipeline [OF c d(2), THEN conjunct2, THEN conjunct1]
  show ?thesis by (intro conjI) (rule r1, rule r2, rule r3)
qed


end
